theory Spec2Isabelle
  imports Complex_Main "HOL-Library.Sublist"
begin

section \<open>Data model of \<open>fred_data.py\<close>\<close>

text \<open>
  A date is a pandas \<open>Timestamp\<close>, modelled by its integer value; a value is a
  \<open>float64\<close>, with \<open>None\<close> for \<open>NaN\<close>, the marker pandas uses both for an observation the
  provider reports as missing and for a cell no series fills.
\<close>

type_synonym date = int
type_synonym val = "real option"

text \<open>Every failure of the provider client and of a writer is a Python \<open>Exception\<close>
  carrying its message.\<close>

datatype exn = Exception string

fun str :: "exn \<Rightarrow> string" where
  "str (Exception m) = m"

text \<open>A column label: an identifier or a description (a string), or the tuple of a
  two-level \<open>MultiIndex\<close>.\<close>

datatype label = Str string | Tup label label

record Series =
  name :: string
  obs :: "(date \<times> val) list"

text \<open>A \<open>DataFrame\<close>: the column labels, the names of the column levels, and the rows in
  index order, each the row's date and its cells in column order.\<close>

record DataFrame =
  columns :: "label list"
  col_names :: "string list"
  rows :: "(date \<times> val list) list"

definition SERIES :: "(string \<times> string) list" where
  "SERIES =
    [(''BAMLC0A0CMEY'', ''ICE BofA US Corporate Index Effective Yield''),
     (''BAMLH0A0HYM2EY'', ''ICE BofA US High Yield Index Effective Yield''),
     (''BAMLC0A0CM'', ''ICE BofA US Corporate Index OAS''),
     (''BAMLH0A0HYM2'', ''ICE BofA US High Yield Index OAS''),
     (''VIXCLS'', ''CBOE Volatility Index (VIX)''),
     (''DGS10'', ''Market Yield on U.S. Treasury (10Y CMT)''),
     (''DGS5'', ''Market Yield on U.S. Treasury (5Y CMT)''),
     (''DGS2'', ''Market Yield on U.S. Treasury (2Y CMT)''),
     (''DGS30'', ''Market Yield on U.S. Treasury (30Y CMT)''),
     (''CPIAUCSL'', ''CPI: All Items''),
     (''CPILFESL'', ''CPI: All Items less Food & Energy''),
     (''UNRATE'', ''Unemployment Rate''),
     (''CCSA'', ''Continued Claims (Insured Unemployment)'')]"

text \<open>\<open>list(SERIES.keys())\<close>: the identifiers in insertion order.\<close>

definition SERIES_keys :: "string list" where
  "SERIES_keys = map fst SERIES"

text \<open>\<open>sid in SERIES\<close> and \<open>SERIES.get(sid, sid)\<close>, for a label \<open>sid\<close> of any shape: a tuple
  is never a key of the table.\<close>

fun in_SERIES :: "label \<Rightarrow> bool" where
  "in_SERIES (Str s) = (s \<in> set (map fst SERIES))"
| "in_SERIES (Tup a b) = False"

fun SERIES_get :: "label \<Rightarrow> label" where
  "SERIES_get (Str s) = (case map_of SERIES s of Some d \<Rightarrow> Str d | None \<Rightarrow> Str s)"
| "SERIES_get (Tup a b) = Tup a b"

section \<open>The environment of a run\<close>

text \<open>
  What the script reads from outside: the process environment, the provider behind
  \<open>Fred(api_key).get_series(sid)\<close>, and whether a write of a frame to a path raises.
  The last field is what \<open>pd.concat\<close> does with frames of which one has a repeated date
  (it raises for most of them and returns a frame for some): that part of pandas is not
  modelled and is taken as it comes.
\<close>

record world =
  getenv :: "string \<Rightarrow> string option"
  get_series :: "string \<Rightarrow> string \<Rightarrow> exn + (date \<times> val) list"
  to_csv :: "string \<Rightarrow> DataFrame \<Rightarrow> exn option"
  to_parquet :: "string \<Rightarrow> DataFrame \<Rightarrow> exn option"
  concat_repeated :: "Series list \<Rightarrow> exn + DataFrame"

text \<open>The command line as \<open>argparse\<close> sees it: each option given or not.\<close>

record argv =
  opt_api_key :: "string option"
  opt_out :: "string option"
  opt_parquet :: "string option"
  opt_timeout :: "real option"

record Namespace =
  api_key :: "string option"
  out :: string
  parquet :: "string option"
  timeout :: real

text \<open>What a file holds after a successful write: the pandas rendering of a frame, as
  delimited text with the given index label or in the columnar format.\<close>

datatype content = Csv DataFrame string | Parquet DataFrame

datatype event =
    Fetch string
  | Sleep real
  | Stdout string
  | Stderr string
  | Wrote string content
  | WriteFailed string
  | Traceback exn

record run =
  status :: nat
  events :: "event list"

section \<open>\<open>parse_args\<close>\<close>

definition parse_args :: "world \<Rightarrow> argv \<Rightarrow> Namespace" where
  "parse_args w av =
    \<lparr>api_key = (case opt_api_key av of Some k \<Rightarrow> Some k | None \<Rightarrow> getenv w ''FRED_API_KEY''),
     out = (case opt_out av of Some p \<Rightarrow> p | None \<Rightarrow> ''fred_series_all.csv''),
     parquet = (case opt_parquet av of Some p \<Rightarrow> Some p | None \<Rightarrow> None),
     timeout = (case opt_timeout av of Some t \<Rightarrow> t | None \<Rightarrow> 0)\<rparr>"

text \<open>Python truth of an optional string: \<open>None\<close> and the empty string are false.\<close>

fun truthy :: "string option \<Rightarrow> bool" where
  "truthy None = False"
| "truthy (Some s) = (s \<noteq> [])"

section \<open>\<open>fetch_all\<close>\<close>

text \<open>\<open>pd.to_datetime\<close> on the index of a fetched series: the client returns the index as
  timestamps already, which the conversion leaves as they are.\<close>

definition to_datetime :: "date list \<Rightarrow> date list" where
  "to_datetime ix = ix"

text \<open>
  The loop body over \<open>enumerate(series_ids, 1)\<close>, with \<open>n = len(series_ids)\<close> and the
  frames collected so far. It returns the events in order and either the exception
  that left the loop or the list of frames.
\<close>

fun fetch_loop ::
  "world \<Rightarrow> Namespace \<Rightarrow> string \<Rightarrow> nat \<Rightarrow> (nat \<times> string) list \<Rightarrow> Series list
    \<Rightarrow> event list \<times> (exn + Series list)" where
  "fetch_loop w args fred n [] frames = ([], Inr frames)"
| "fetch_loop w args fred n ((i, sid) # rest) frames =
    (case get_series w fred sid of
       Inl e \<Rightarrow> ([Fetch sid], Inl e)
     | Inr s \<Rightarrow>
        (let s' = \<lparr>name = sid, obs = zip (to_datetime (map fst s)) (map snd s)\<rparr>;
             frames' = frames @ [s'];
             pause = (if timeout args > 0 \<and> i < n then [Sleep (timeout args)] else [])
         in case fetch_loop w args fred n rest frames' of
              (tr, r) \<Rightarrow> (Fetch sid # pause @ tr, r)))"

text \<open>
  \<open>pd.concat(frames, axis=1, join="outer")\<close>. With no frame it raises. The row index is
  the union of the frames' indexes, taken pairwise from the left as pandas does for
  indexes of dates: the union with an empty or an equal index is the index itself,
  any other union holds each date once, in ascending order. Every frame is aligned to
  that index, a date the frame lacks giving \<open>NaN\<close>.
\<close>

definition union2 :: "date list \<Rightarrow> date list \<Rightarrow> date list" where
  "union2 self other =
    (if other = [] \<or> self = other then self
     else if self = [] then other
     else sort (remdups (self @ other)))"

definition union_indexes :: "date list list \<Rightarrow> date list" where
  "union_indexes ixs =
    (case ixs of [] \<Rightarrow> [] | ix # rest \<Rightarrow> fold (\<lambda>other result. union2 result other) rest ix)"

definition reindex :: "(date \<times> val) list \<Rightarrow> date \<Rightarrow> val" where
  "reindex s d = (case map_of s d of Some v \<Rightarrow> v | None \<Rightarrow> None)"

definition concat_outer :: "world \<Rightarrow> Series list \<Rightarrow> exn + DataFrame" where
  "concat_outer w frames =
    (if frames = [] then Inl (Exception ''No objects to concatenate'')
     else if list_ex (\<lambda>s. \<not> distinct (map fst (obs s))) frames
       then concat_repeated w frames
     else Inr \<lparr>columns = map (\<lambda>s. Str (name s)) frames,
               col_names = [],
               rows = map (\<lambda>d. (d, map (\<lambda>s. reindex (obs s) d) frames))
                        (union_indexes (map (\<lambda>s. map fst (obs s)) frames))\<rparr>)"

definition sort_index :: "DataFrame \<Rightarrow> DataFrame" where
  "sort_index df = df\<lparr>rows := sort_key fst (rows df)\<rparr>"

text \<open>\<open>fetch_all(fred, series_ids)\<close>; the source reads the module-level \<open>args\<close>, here a
  parameter, and \<open>fred\<close> is the client, determined by its key.\<close>

definition fetch_all ::
  "world \<Rightarrow> Namespace \<Rightarrow> string \<Rightarrow> string list \<Rightarrow> event list \<times> (exn + DataFrame)" where
  "fetch_all w args fred series_ids =
    (case fetch_loop w args fred (length series_ids) (enumerate 1 series_ids) [] of
       (tr, Inl e) \<Rightarrow> (tr, Inl e)
     | (tr, Inr frames) \<Rightarrow>
        (case concat_outer w frames of
           Inl e \<Rightarrow> (tr, Inl e)
         | Inr df \<Rightarrow> (tr, Inr (sort_index df))))"

section \<open>\<open>add_metadata_columns\<close>\<close>

text \<open>\<open>df.rename(columns=friendly)\<close> on a flat column index: a new frame, each label that
  is a key of the mapping replaced by its entry.\<close>

definition rename :: "DataFrame \<Rightarrow> (label \<times> label) list \<Rightarrow> DataFrame" where
  "rename df mapper =
    df\<lparr>columns := map (\<lambda>l. case map_of mapper l of Some l' \<Rightarrow> l' | None \<Rightarrow> l) (columns df)\<rparr>"

text \<open>
  The function assigns to \<open>df.columns\<close>, so the caller's frame changes: the result is
  the frame \<open>df\<close> as the call leaves it, then the two returned frames
  \<open>(df_out, df_friendly)\<close>.
\<close>

definition add_metadata_columns :: "DataFrame \<Rightarrow> DataFrame \<times> DataFrame \<times> DataFrame" where
  "add_metadata_columns df =
    (let friendly = map (\<lambda>sid. (sid, SERIES_get sid)) (filter in_SERIES (columns df));
         df_friendly = rename df friendly;
         cols = map (\<lambda>sid. Tup sid (SERIES_get sid)) (columns df);
         df1 = df\<lparr>columns := cols, col_names := [''FRED_ID'', ''Description'']\<rparr>;
         df_out = df1
     in (df1, df_out, df_friendly))"

section \<open>The script body\<close>

text \<open>Python's \<open>str.replace(old, new)\<close>: every occurrence of \<open>old\<close>, found from the left and
  not overlapping the one before, is replaced; an empty \<open>old\<close> matches before every
  character and at the end.\<close>

function replace_from :: "string \<Rightarrow> string \<Rightarrow> string \<Rightarrow> string" where
  "replace_from old new [] = []"
| "replace_from old new (c # cs) =
    (if old \<noteq> [] \<and> prefix old (c # cs)
     then new @ replace_from old new (drop (length old) (c # cs))
     else c # replace_from old new cs)"
  by pat_completeness auto
termination
  by (relation "measure (\<lambda>(old, new, s). length s)") auto

definition replace :: "string \<Rightarrow> string \<Rightarrow> string \<Rightarrow> string" where
  "replace s old new =
    (if old = [] then new @ concat (map (\<lambda>c. c # new) s) else replace_from old new s)"

definition friendly_path :: "string \<Rightarrow> string" where
  "friendly_path p = replace p ''.csv'' ''_friendly.csv''"

definition missing_key_message :: string where
  "missing_key_message =
    ''Error: FRED API key not provided. Use --api-key or set FRED_API_KEY env var.''
      @ [CHR 0x0A]"

text \<open>An exception nobody catches: the interpreter prints the traceback and exits with
  status 1.\<close>

definition uncaught :: "event list \<Rightarrow> exn \<Rightarrow> run" where
  "uncaught tr e = \<lparr>status = 1, events = tr @ [Traceback e]\<rparr>"

text \<open>The optional Parquet step: skipped when the path is \<open>None\<close> or empty; a failure is
  caught and reported on the error stream.\<close>

definition parquet_step :: "world \<Rightarrow> Namespace \<Rightarrow> DataFrame \<Rightarrow> event list" where
  "parquet_step w args df_multi =
    (if truthy (parquet args) then
       (let p = the (parquet args) in
        case to_parquet w p df_multi of
          None \<Rightarrow> [Wrote p (Parquet df_multi), Stdout (''Wrote Parquet: '' @ p)]
        | Some e \<Rightarrow>
            [WriteFailed p,
             Stderr (''Parquet write failed (install pyarrow?): '' @ str e @ [CHR 0x0A])])
     else [])"

definition main :: "world \<Rightarrow> argv \<Rightarrow> run" where
  "main w av =
    (let args = parse_args w av in
     if \<not> truthy (api_key args)
     then \<lparr>status = 1, events = [Stderr missing_key_message]\<rparr>
     else
       (let fred = the (api_key args);
            series_ids = SERIES_keys
        in case fetch_all w args fred series_ids of
             (tr, Inl e) \<Rightarrow> uncaught tr e
           | (tr, Inr df) \<Rightarrow>
              (case add_metadata_columns df of
                 (df1, df_multi, df_friendly) \<Rightarrow>
                  (case to_csv w (out args) df_multi of
                     Some e \<Rightarrow> uncaught (tr @ [WriteFailed (out args)]) e
                   | None \<Rightarrow>
                      (let tr1 = tr @
                             [Wrote (out args) (Csv df_multi ''Date''),
                              Stdout (''Wrote CSV: '' @ out args
                                @ ''  (columns are a MultiIndex: FRED_ID, Description)'')];
                           tr2 = tr1 @ parquet_step w args df_multi;
                           friendly_out = friendly_path (out args)
                       in case to_csv w friendly_out df_friendly of
                            Some e \<Rightarrow> uncaught (tr2 @ [WriteFailed friendly_out]) e
                          | None \<Rightarrow>
                             \<lparr>status = 0,
                              events = tr2 @
                                [Wrote friendly_out (Csv df_friendly ''Date''),
                                 Stdout (''Wrote CSV with friendly column names: ''
                                   @ friendly_out)]\<rparr>)))))"

section \<open>Observations on a run\<close>

fun is_write :: "event \<Rightarrow> bool" where
  "is_write (Wrote p f) = True"
| "is_write (WriteFailed p) = True"
| "is_write e = False"

fun is_fetch :: "event \<Rightarrow> bool" where
  "is_fetch (Fetch sid) = True"
| "is_fetch e = False"

fun is_sleep :: "event \<Rightarrow> bool" where
  "is_sleep (Sleep d) = True"
| "is_sleep e = False"

text \<open>
  The spec's wording of the secondary path, for comparison with \<open>friendly_path\<close>: the
  extension is the part of the last path component from its last dot on, and the
  suffix goes immediately before it.
\<close>

definition splitext :: "string \<Rightarrow> string \<times> string" where
  "splitext p =
    (let r = rev p;
         e = takeWhile (\<lambda>c. c \<noteq> CHR ''.'' \<and> c \<noteq> CHR ''/'') r;
         rest = dropWhile (\<lambda>c. c \<noteq> CHR ''.'' \<and> c \<noteq> CHR ''/'') r
     in case rest of
          [] \<Rightarrow> (p, [])
        | c # stem \<Rightarrow> if c = CHR ''.'' then (rev stem, c # rev e) else (p, []))"

definition suffix_before_extension :: "string \<Rightarrow> string \<Rightarrow> string" where
  "suffix_before_extension sfx p = (case splitext p of (stem, ext) \<Rightarrow> stem @ sfx @ ext)"

text \<open>The files a trace leaves behind: each successful write replaces the file at its
  path. What a failed write leaves at its path is not tracked.\<close>

fun files_of :: "event list \<Rightarrow> (string \<rightharpoonup> content) \<Rightarrow> (string \<rightharpoonup> content)" where
  "files_of [] fs = fs"
| "files_of (Wrote p f # es) fs = files_of es (fs(p \<mapsto> f))"
| "files_of (e # es) fs = files_of es fs"

text \<open>
  For stating what the fetch loop does: the identifiers \<open>get_series\<close> is called for (the
  loop stops at the first call that raises), and the trace of calls on the given
  identifiers with a pause of \<open>d\<close> between each two consecutive calls and none after the
  last.
\<close>

fun attempted :: "world \<Rightarrow> string \<Rightarrow> string list \<Rightarrow> string list" where
  "attempted w fred [] = []"
| "attempted w fred (sid # rest) =
    (case get_series w fred sid of Inl e \<Rightarrow> [sid] | Inr s \<Rightarrow> sid # attempted w fred rest)"

fun between :: "real \<Rightarrow> string list \<Rightarrow> event list" where
  "between d [] = []"
| "between d [sid] = [Fetch sid]"
| "between d (sid # next # rest) = Fetch sid # Sleep d # between d (next # rest)"

section \<open>Concrete instances\<close>

text \<open>A world with no environment, no provider data and no failing write, and a command
  line with no option, for the concrete instances below.\<close>

definition bare_world :: world where
  "bare_world =
    \<lparr>getenv = (\<lambda>v. None), get_series = (\<lambda>k sid. Inr []),
     to_csv = (\<lambda>p df. None), to_parquet = (\<lambda>p df. None),
     concat_repeated =
       (\<lambda>frames. Inl (Exception ''cannot reindex on an axis with duplicate labels''))\<rparr>"

definition no_options :: argv where
  "no_options = \<lparr>opt_api_key = None, opt_out = None, opt_parquet = None, opt_timeout = None\<rparr>"

definition paused :: Namespace where
  "paused = \<lparr>api_key = Some ''k'', out = ''o.csv'', parquet = None, timeout = 2\<rparr>"

definition failing_world :: world where
  "failing_world =
    bare_world\<lparr>get_series := (\<lambda>k sid.
      if sid = ''BAMLC0A0CM'' then Inl (Exception ''Bad Request'') else Inr [])\<rparr>"

definition with_key :: argv where
  "with_key = no_options\<lparr>opt_api_key := Some ''k''\<rparr>"

definition small_frame :: DataFrame where
  "small_frame = \<lparr>columns = [Str ''DGS10''], col_names = [], rows = [(0, [Some 1])]\<rparr>"

definition example_series :: "string \<Rightarrow> (date \<times> val) list" where
  "example_series sid = (if sid = ''A'' then [(1, Some 1), (32, Some 2)] else [(15, Some 9)])"

definition example_world :: world where
  "example_world = bare_world\<lparr>get_series := (\<lambda>k sid. Inr (example_series sid))\<rparr>"

definition no_pyarrow_world :: world where
  "no_pyarrow_world =
    bare_world\<lparr>to_parquet := (\<lambda>p df. Some (Exception ''No module named pyarrow''))\<rparr>"

definition with_parquet :: argv where
  "with_parquet = with_key\<lparr>opt_parquet := Some ''fred.parquet''\<rparr>"

definition to_txt :: argv where
  "to_txt = with_key\<lparr>opt_out := Some ''out.txt''\<rparr>"

section \<open>The fetch loop\<close>

lemma attempted_Nil_iff: "attempted w fred ids = [] \<longleftrightarrow> ids = []"
  by (cases ids) (auto split: sum.splits)

lemma between_Cons:
  "between d (sid # xs) = Fetch sid # (if xs = [] then [] else Sleep d # between d xs)"
  by (cases xs) auto

lemma sleeps_between: "length (filter is_sleep (between d xs)) = length xs - 1"
  by (induction d xs rule: between.induct) auto

lemma sleep_in_between: "Sleep t \<in> set (between d xs) \<Longrightarrow> t = d"
  by (induction d xs rule: between.induct) auto

lemma between_Nil_iff: "between d xs = [] \<longleftrightarrow> xs = []"
  by (induction d xs rule: between.induct) auto

lemma last_between: "xs \<noteq> [] \<Longrightarrow> last (between d xs) = Fetch (last xs)"
  by (induction d xs rule: between.induct) (auto simp: between_Nil_iff)

lemma fetch_loop_trace_pause:
  "0 < timeout args \<Longrightarrow> n = k + length ids - 1 \<Longrightarrow>
   fst (fetch_loop w args fred n (enumerate k ids) frames)
     = between (timeout args) (attempted w fred ids)"
proof (induction ids arbitrary: k frames)
  case Nil
  show ?case by simp
next
  case (Cons sid rest)
  show ?case
  proof (cases "get_series w fred sid")
    case (Inl e)
    then show ?thesis by simp
  next
    case (Inr s)
    have n: "n = Suc k + length rest - 1"
      using Cons.prems by simp
    have kn: "k < n \<longleftrightarrow> rest \<noteq> []"
      using Cons.prems by (cases rest) auto
    from Cons.IH [OF Cons.prems(1) n] Inr Cons.prems(1) kn
    show ?thesis
      by (simp add: Let_def split_beta between_Cons attempted_Nil_iff)
  qed
qed

lemma fetch_loop_trace_no_pause:
  "\<not> 0 < timeout args \<Longrightarrow>
   fst (fetch_loop w args fred n xs frames) = map Fetch (attempted w fred (map snd xs))"
  by (induction xs arbitrary: frames) (auto simp: Let_def split_beta split: sum.splits)

lemma fetch_loop_fetches:
  "filter is_fetch (fst (fetch_loop w args fred n xs frames))
     = map Fetch (attempted w fred (map snd xs))"
  by (induction xs arbitrary: frames) (auto simp: Let_def split_beta split: sum.splits)

lemma fetch_loop_no_write:
  "filter is_write (fst (fetch_loop w args fred n xs frames)) = []"
  by (induction xs arbitrary: frames) (auto simp: Let_def split_beta split: sum.splits)

lemma fetch_loop_frames:
  "\<forall>sid \<in> set (map snd xs). get_series w fred sid = Inr (f sid) \<Longrightarrow>
   snd (fetch_loop w args fred n xs frames)
     = Inr (frames @ map (\<lambda>sid. \<lparr>name = sid, obs = f sid\<rparr>) (map snd xs))"
  by (induction xs arbitrary: frames)
    (auto simp: Let_def split_beta to_datetime_def zip_map_fst_snd)

lemma attempted_all:
  "\<forall>sid \<in> set ids. \<not> isl (get_series w fred sid) \<Longrightarrow> attempted w fred ids = ids"
  by (induction ids) (auto split: sum.splits)

lemma attempted_first_failure:
  "k < length ids \<Longrightarrow> isl (get_series w fred (ids ! k))
   \<Longrightarrow> \<forall>j<k. \<not> isl (get_series w fred (ids ! j))
   \<Longrightarrow> attempted w fred ids = take (Suc k) ids"
proof (induction ids arbitrary: k)
  case Nil
  then show ?case by simp
next
  case (Cons sid rest)
  show ?case
  proof (cases k)
    case 0
    with Cons.prems show ?thesis by (auto split: sum.splits)
  next
    case (Suc k')
    with Cons.prems have "\<not> isl (get_series w fred sid)" by auto
    moreover have "attempted w fred rest = take (Suc k') rest"
      using Cons.prems Suc by (intro Cons.IH) auto
    ultimately show ?thesis using Suc by (auto split: sum.splits)
  qed
qed

lemma fetch_loop_fails:
  "k < length xs \<Longrightarrow> get_series w fred (snd (xs ! k)) = Inl e
   \<Longrightarrow> \<forall>j<k. \<not> isl (get_series w fred (snd (xs ! j)))
   \<Longrightarrow> snd (fetch_loop w args fred n xs frames) = Inl e"
proof (induction xs arbitrary: k frames)
  case Nil
  then show ?case by simp
next
  case (Cons x rest)
  obtain i sid where x: "x = (i, sid)" by (cases x)
  show ?case
  proof (cases k)
    case 0
    with Cons.prems x show ?thesis by simp
  next
    case (Suc k')
    with Cons.prems x have "\<not> isl (get_series w fred sid)" by auto
    then obtain s where s: "get_series w fred sid = Inr s"
      by (cases "get_series w fred sid") auto
    have "snd (fetch_loop w args fred n rest
        (frames @ [\<lparr>name = sid, obs = zip (to_datetime (map fst s)) (map snd s)\<rparr>])) = Inl e"
      using Cons.prems Suc by (intro Cons.IH [of k']) auto
    with s x show ?thesis by (simp add: Let_def split_beta)
  qed
qed

lemma fetch_all_trace:
  "fst (fetch_all w args fred ids)
     = fst (fetch_loop w args fred (length ids) (enumerate 1 ids) [])"
  by (simp add: fetch_all_def split: prod.splits sum.splits)

text \<open>
  C7: with a delay greater than zero the trace of the fetch loop is the calls made,
  with a pause of exactly the delay between each two consecutive calls and none after
  the last; when no call raises these are all \<open>n\<close> identifiers, so there are \<open>n - 1\<close>
  pauses and the trace ends with the last call. With a delay that is not greater than
  zero (the default 0) the loop never pauses.
\<close>

theorem fetch_all_pauses:
  "(0 < timeout args \<longrightarrow>
      fst (fetch_all w args fred ids) = between (timeout args) (attempted w fred ids))
   \<and> (0 < timeout args \<and> (\<forall>sid \<in> set ids. \<not> isl (get_series w fred sid)) \<longrightarrow>
      fst (fetch_all w args fred ids) = between (timeout args) ids
      \<and> length (filter is_sleep (fst (fetch_all w args fred ids))) = length ids - 1
      \<and> (ids \<noteq> [] \<longrightarrow> last (fst (fetch_all w args fred ids)) = Fetch (last ids)))
   \<and> (\<not> 0 < timeout args \<longrightarrow> filter is_sleep (fst (fetch_all w args fred ids)) = [])"
proof (intro conjI impI)
  assume t: "0 < timeout args"
  have "length ids = 1 + length ids - 1" by simp
  from fetch_loop_trace_pause [OF t this]
  show "fst (fetch_all w args fred ids) = between (timeout args) (attempted w fred ids)"
    by (simp add: fetch_all_trace)
next
  assume a: "0 < timeout args \<and> (\<forall>sid \<in> set ids. \<not> isl (get_series w fred sid))"
  then have t: "0 < timeout args" by simp
  have "length ids = 1 + length ids - 1" by simp
  from fetch_loop_trace_pause [OF t this] a
  show b: "fst (fetch_all w args fred ids) = between (timeout args) ids"
    by (simp add: fetch_all_trace attempted_all)
  show "length (filter is_sleep (fst (fetch_all w args fred ids))) = length ids - 1"
    by (simp only: b sleeps_between)
  assume "ids \<noteq> []"
  then show "last (fst (fetch_all w args fred ids)) = Fetch (last ids)"
    by (simp add: b last_between)
next
  assume "\<not> 0 < timeout args"
  then show "filter is_sleep (fst (fetch_all w args fred ids)) = []"
    by (simp add: fetch_all_trace fetch_loop_trace_no_pause filter_map o_def)
qed

theorem fetch_all_pauses_witness:
  "0 < timeout paused
   \<and> \<not> isl (get_series bare_world ''k'' ''A'')
   \<and> \<not> isl (get_series bare_world ''k'' ''B'')
   \<and> \<not> isl (get_series bare_world ''k'' ''C'')
   \<and> fst (fetch_all bare_world paused ''k'' [''A'', ''B'', ''C''])
      = [Fetch ''A'', Sleep 2, Fetch ''B'', Sleep 2, Fetch ''C'']
   \<and> \<not> 0 < timeout (paused\<lparr>timeout := 0\<rparr>)
   \<and> filter is_sleep
        (fst (fetch_all bare_world (paused\<lparr>timeout := 0\<rparr>) ''k'' [''A'', ''B'', ''C''])) = []"
  using fetch_all_pauses [of paused bare_world "''k''" "[''A'', ''B'', ''C'']"]
    fetch_all_pauses [of "paused\<lparr>timeout := 0\<rparr>" bare_world "''k''" "[''A'', ''B'', ''C'']"]
  by (simp add: paused_def bare_world_def)

section \<open>The merge\<close>

lemma set_union2: "set (union2 self other) = set self \<union> set other"
  by (auto simp: union2_def)

lemma distinct_union2: "distinct self \<Longrightarrow> distinct other \<Longrightarrow> distinct (union2 self other)"
  by (simp add: union2_def)

lemma fold_union_set:
  "set (fold (\<lambda>other result. union2 result other) rest ix) = set ix \<union> \<Union> (set ` set rest)"
  by (induction rest arbitrary: ix) (auto simp: set_union2)

lemma fold_union_distinct:
  "distinct ix \<Longrightarrow> \<forall>other \<in> set rest. distinct other \<Longrightarrow>
   distinct (fold (\<lambda>other result. union2 result other) rest ix)"
  by (induction rest arbitrary: ix) (auto simp: distinct_union2)

lemma set_union_indexes: "set (union_indexes ixs) = \<Union> (set ` set ixs)"
  by (cases ixs) (simp_all add: union_indexes_def fold_union_set)

lemma distinct_union_indexes: "\<forall>ix \<in> set ixs. distinct ix \<Longrightarrow> distinct (union_indexes ixs)"
  by (cases ixs) (simp_all add: union_indexes_def fold_union_distinct)

lemma map_fst_sort_key_distinct:
  fixes xs :: "(int \<times> 'a) list"
  assumes "distinct (map fst xs)"
  shows "map fst (sort_key fst xs) = sorted_list_of_set (fst ` set xs)"
proof -
  have s: "sorted (map fst (sort_key fst xs))" by (rule sorted_sort_key)
  have "card (fst ` set xs) = length xs"
    using distinct_card [OF assms] by simp
  then have "card (set (map fst (sort_key fst xs))) = length (map fst (sort_key fst xs))"
    by simp
  then have d: "distinct (map fst (sort_key fst xs))" by (rule card_distinct)
  have "set (map fst (sort_key fst xs)) = fst ` set xs" by simp
  with s d show ?thesis
    by (metis sorted_list_of_set.idem_if_sorted_distinct)
qed

lemma reindex_present: "distinct (map fst s) \<Longrightarrow> (d, v) \<in> set s \<Longrightarrow> reindex s d = v"
  by (simp add: reindex_def)

lemma reindex_absent: "d \<notin> fst ` set s \<Longrightarrow> reindex s d = None"
proof -
  assume "d \<notin> fst ` set s"
  then have "map_of s d = None"
    by (simp add: map_of_eq_None_iff)
  then show ?thesis
    by (simp add: reindex_def)
qed


lemma concat_outer_ok:
  assumes "frames \<noteq> []" and "\<forall>s \<in> set frames. distinct (map fst (obs s))"
  shows "concat_outer w frames =
    Inr \<lparr>columns = map (\<lambda>s. Str (name s)) frames, col_names = [],
         rows = map (\<lambda>d. (d, map (\<lambda>s. reindex (obs s) d) frames))
                  (union_indexes (map (\<lambda>s. map fst (obs s)) frames))\<rparr>"
  using assms by (simp add: concat_outer_def list_ex_iff)

lemma fetch_all_ok:
  assumes "ids \<noteq> []"
    and "\<forall>sid \<in> set ids. get_series w fred sid = Inr (f sid) \<and> distinct (map fst (f sid))"
  shows "snd (fetch_all w args fred ids) =
    Inr \<lparr>columns = map Str ids, col_names = [],
         rows = sort_key fst (map (\<lambda>d. (d, map (\<lambda>sid. reindex (f sid) d) ids))
                  (union_indexes (map (\<lambda>sid. map fst (f sid)) ids)))\<rparr>"
proof -
  let ?frames = "map (\<lambda>sid. \<lparr>name = sid, obs = f sid\<rparr>) ids"
  have "snd (fetch_loop w args fred (length ids) (enumerate 1 ids) [])
      = Inr ([] @ map (\<lambda>sid. \<lparr>name = sid, obs = f sid\<rparr>) (map snd (enumerate 1 ids)))"
    using assms(2) by (intro fetch_loop_frames) simp
  then have l: "snd (fetch_loop w args fred (length ids) (enumerate 1 ids) []) = Inr ?frames"
    by simp
  have c: "concat_outer w ?frames =
    Inr \<lparr>columns = map (\<lambda>s. Str (name s)) ?frames, col_names = [],
         rows = map (\<lambda>d. (d, map (\<lambda>s. reindex (obs s) d) ?frames))
                  (union_indexes (map (\<lambda>s. map fst (obs s)) ?frames))\<rparr>"
    using assms by (intro concat_outer_ok) auto
  show ?thesis
    using l c
    by (cases "fetch_loop w args fred (length ids) (enumerate 1 ids) []")
      (simp add: fetch_all_def sort_index_def o_def)
qed

text \<open>
  C1: for a non-empty list of identifiers whose fetches all succeed, each series with
  distinct dates, \<open>fetch_all\<close> returns a table whose row index is the sorted list,
  without repetition, of the union of the dates of all series; it has as many rows as
  that union has elements, and one column per identifier, in the order of the
  identifiers; the cell of a row for an identifier is that series' observation at the
  row's date when it has one, and the missing marker when it has none.
\<close>

theorem fetch_all_outer_join:
  assumes "ids \<noteq> []"
    and "\<forall>sid \<in> set ids. get_series w fred sid = Inr (f sid) \<and> distinct (map fst (f sid))"
  shows "\<exists>df. snd (fetch_all w args fred ids) = Inr df
    \<and> map fst (rows df) = sorted_list_of_set (\<Union>sid \<in> set ids. fst ` set (f sid))
    \<and> length (rows df) = card (\<Union>sid \<in> set ids. fst ` set (f sid))
    \<and> columns df = map Str ids
    \<and> length (columns df) = length ids
    \<and> (\<forall>(d, cells) \<in> set (rows df). length cells = length ids
         \<and> (\<forall>j < length ids.
              (\<forall>v. (d, v) \<in> set (f (ids ! j)) \<longrightarrow> cells ! j = v)
              \<and> (d \<notin> fst ` set (f (ids ! j)) \<longrightarrow> cells ! j = None)))"
proof -
  let ?U = "\<Union>sid \<in> set ids. fst ` set (f sid)"
  let ?ix = "union_indexes (map (\<lambda>sid. map fst (f sid)) ids)"
  let ?row = "\<lambda>d. (d, map (\<lambda>sid. reindex (f sid) d) ids)"
  let ?df = "\<lparr>columns = map Str ids, col_names = [], rows = sort_key fst (map ?row ?ix)\<rparr>"
  have ok: "snd (fetch_all w args fred ids) = Inr ?df"
    using assms by (rule fetch_all_ok)
  have set_ix: "set ?ix = ?U"
    by (auto simp: set_union_indexes)
  have dist_ix: "distinct ?ix"
    using assms(2) by (intro distinct_union_indexes) auto
  have fst_row: "map fst (map ?row ?ix) = ?ix"
    by (simp add: o_def)
  have "map fst (sort_key fst (map ?row ?ix)) = sorted_list_of_set (fst ` set (map ?row ?ix))"
    using dist_ix by (intro map_fst_sort_key_distinct) (simp only: fst_row)
  moreover have "fst ` set (map ?row ?ix) = ?U"
    using set_ix by (simp add: image_image)
  ultimately have idx: "map fst (rows ?df) = sorted_list_of_set ?U"
    by simp
  have len: "length (rows ?df) = card ?U"
    using distinct_card [OF dist_ix] set_ix by simp
  have cells: "\<forall>(d, cells) \<in> set (rows ?df). length cells = length ids
         \<and> (\<forall>j < length ids.
              (\<forall>v. (d, v) \<in> set (f (ids ! j)) \<longrightarrow> cells ! j = v)
              \<and> (d \<notin> fst ` set (f (ids ! j)) \<longrightarrow> cells ! j = None))"
    using assms(2) by (auto simp: reindex_present reindex_absent)
  from ok idx len cells show ?thesis
    by (intro exI [of _ ?df]) simp
qed


text \<open>The example of the spec, run: series \<open>A\<close> on the dates 1 and 32, series \<open>B\<close> on the
  date 15.\<close>

lemma fetch_all_example:
  "snd (fetch_all example_world paused ''k'' [''A'', ''B'']) =
    Inr \<lparr>columns = [Str ''A'', Str ''B''], col_names = [],
         rows = [(1, [Some 1, None]), (15, [None, Some 9]), (32, [Some 2, None])]\<rparr>"
  by (simp add: fetch_all_def example_world_def bare_world_def paused_def Let_def
      to_datetime_def concat_outer_def union_indexes_def union2_def reindex_def sort_index_def
      example_series_def)

theorem fetch_all_outer_join_witness:
  "[''A'', ''B''] \<noteq> []
   \<and> get_series example_world ''k'' ''A'' = Inr [(1, Some 1), (32, Some 2)]
   \<and> get_series example_world ''k'' ''B'' = Inr [(15, Some 9)]
   \<and> (\<exists>df. snd (fetch_all example_world paused ''k'' [''A'', ''B'']) = Inr df
        \<and> map fst (rows df) = [1, 15, 32] \<and> length (rows df) = 3
        \<and> columns df = [Str ''A'', Str ''B''])"
proof -
  have a: "[''A'', ''B''] \<noteq> ([] :: string list)" by simp
  have b: "\<forall>sid \<in> set [''A'', ''B'']. get_series example_world ''k'' sid = Inr (example_series sid)
      \<and> distinct (map fst (example_series sid))"
    by (simp add: example_world_def example_series_def)
  have u: "(\<Union>sid \<in> set [''A'', ''B'']. fst ` set (example_series sid)) = set [1, 15, 32]"
    by (auto simp: example_series_def)
  have s: "sorted_list_of_set (set [1, 15, 32 :: int]) = [1, 15, 32]"
    by (simp only: sorted_list_of_set_sort_remdups) simp
  have c: "card (set [1, 15, 32 :: int]) = 3"
    by simp
  from fetch_all_outer_join [OF a b, of paused]
  obtain df where "snd (fetch_all example_world paused ''k'' [''A'', ''B'']) = Inr df"
     "map fst (rows df) = [1, 15, 32]" "length (rows df) = 3" "columns df = [Str ''A'', Str ''B'']"
    unfolding u s c by auto
  then show ?thesis
    by (simp add: example_world_def example_series_def)
qed

section \<open>Failure of a fetch\<close>

lemma main_fetch_failed:
  assumes "truthy (api_key (parse_args w av))"
    and "snd (fetch_all w (parse_args w av) (the (api_key (parse_args w av))) SERIES_keys) = Inl e"
  shows "main w av = uncaught (fst (fetch_all w (parse_args w av) (the (api_key (parse_args w av))) SERIES_keys)) e"
  using assms
  by (cases "fetch_all w (parse_args w av) (the (api_key (parse_args w av))) SERIES_keys")
    (simp add: main_def Let_def)

text \<open>
  C5: when the provider raises for some identifier of the catalog, the run ends with a
  non-zero status on that exception, uncaught; it attempts no write; and the calls made
  are those for the identifiers up to and including the first one that fails, each
  once: none after it, no second call for it.
\<close>

theorem provider_error_aborts:
  assumes "truthy (api_key (parse_args w av))"
    and "\<exists>sid \<in> set SERIES_keys. isl (get_series w (the (api_key (parse_args w av))) sid)"
  shows "status (main w av) \<noteq> 0
    \<and> filter is_write (events (main w av)) = []
    \<and> (\<exists>k e. k < length SERIES_keys
          \<and> get_series w (the (api_key (parse_args w av))) (SERIES_keys ! k) = Inl e
          \<and> (\<forall>j<k. \<not> isl (get_series w (the (api_key (parse_args w av))) (SERIES_keys ! j)))
          \<and> filter is_fetch (events (main w av)) = map Fetch (take (Suc k) SERIES_keys)
          \<and> last (events (main w av)) = Traceback e)"
proof -
  define fred where "fred = the (api_key (parse_args w av))"
  define args where "args = parse_args w av"
  define P where "P = (\<lambda>k. k < length SERIES_keys \<and> isl (get_series w fred (SERIES_keys ! k)))"
  from assms(2) have "\<exists>k. P k"
    unfolding P_def fred_def by (auto simp: in_set_conv_nth)
  then obtain k where k: "P k" and least: "\<forall>j<k. \<not> P j"
    using exists_least_iff [of P] by blast
  from k have kl: "k < length SERIES_keys" and "isl (get_series w fred (SERIES_keys ! k))"
    by (simp_all add: P_def)
  then obtain e where e: "get_series w fred (SERIES_keys ! k) = Inl e"
    by (cases "get_series w fred (SERIES_keys ! k)") auto
  have before: "\<forall>j<k. \<not> isl (get_series w fred (SERIES_keys ! j))"
    using least kl by (auto simp: P_def)
  have att: "attempted w fred SERIES_keys = take (Suc k) SERIES_keys"
    using kl e before by (intro attempted_first_failure) auto
  let ?xs = "enumerate 1 SERIES_keys"
  have "snd (fetch_loop w args fred (length SERIES_keys) ?xs []) = Inl e"
    using kl e before by (intro fetch_loop_fails [of k]) (auto simp: nth_enumerate_eq)
  then have r: "snd (fetch_all w args fred SERIES_keys) = Inl e"
    by (cases "fetch_loop w args fred (length SERIES_keys) ?xs []") (simp add: fetch_all_def)
  have m: "main w av = uncaught (fst (fetch_all w args fred SERIES_keys)) e"
    using assms(1) r unfolding args_def fred_def by (rule main_fetch_failed)
  have f: "filter is_fetch (events (main w av)) = map Fetch (take (Suc k) SERIES_keys)"
    by (simp add: m uncaught_def fetch_all_trace fetch_loop_fetches att)
  have wr: "filter is_write (events (main w av)) = []"
    by (simp add: m uncaught_def fetch_all_trace fetch_loop_no_write)
  have st: "status (main w av) \<noteq> 0" "last (events (main w av)) = Traceback e"
    by (simp_all add: m uncaught_def)
  from kl e before f wr st show ?thesis
    unfolding fred_def by blast
qed


theorem provider_error_aborts_witness:
  "truthy (api_key (parse_args failing_world with_key))
   \<and> ''BAMLC0A0CM'' \<in> set SERIES_keys
   \<and> isl (get_series failing_world (the (api_key (parse_args failing_world with_key))) ''BAMLC0A0CM'')
   \<and> status (main failing_world with_key) \<noteq> 0
   \<and> filter is_write (events (main failing_world with_key)) = []"
proof -
  have a: "truthy (api_key (parse_args failing_world with_key))"
    by (simp add: parse_args_def with_key_def no_options_def)
  have b: "''BAMLC0A0CM'' \<in> set SERIES_keys"
    by (simp add: SERIES_keys_def SERIES_def)
  have c: "isl (get_series failing_world (the (api_key (parse_args failing_world with_key))) ''BAMLC0A0CM'')"
    by (simp add: failing_world_def)
  from b c have d: "\<exists>sid \<in> set SERIES_keys.
      isl (get_series failing_world (the (api_key (parse_args failing_world with_key))) sid)"
    by (rule bexI [rotated])
  from provider_error_aborts [OF a d] a b c show ?thesis
    by blast
qed

section \<open>Labelling\<close>

text \<open>
  C6, as the spec has it: the labelling step is pure and leaves its input unchanged.
  It does not: the assignment to \<open>df.columns\<close> replaces the header of the caller's
  frame.
\<close>

theorem add_metadata_columns_changes_input:
  "fst (add_metadata_columns small_frame) \<noteq> small_frame"
  by (simp add: add_metadata_columns_def small_frame_def Let_def)

lemma SERIES_get_fallback: "\<not> in_SERIES l \<Longrightarrow> SERIES_get l = l"
proof (cases l)
  case (Str s)
  assume "\<not> in_SERIES l"
  with Str have "map_of SERIES s = None"
    by (simp add: map_of_eq_None_iff)
  with Str show ?thesis by simp
next
  case (Tup a b)
  then show ?thesis by simp
qed

lemma map_of_friendly:
  "map_of (map (\<lambda>sid. (sid, SERIES_get sid)) (filter in_SERIES cols)) l
     = (if l \<in> set cols \<and> in_SERIES l then Some (SERIES_get l) else None)"
  by (induction cols) auto

lemma rename_friendly:
  "columns (rename df (map (\<lambda>sid. (sid, SERIES_get sid)) (filter in_SERIES (columns df))))
     = map SERIES_get (columns df)"
  by (auto simp: rename_def map_of_friendly SERIES_get_fallback)

text \<open>
  C6, amended: the labelling step changes header metadata only, never a date or a
  cell: the rows of both returned views, and of the input frame as the call leaves it,
  are the rows of the input. The dual-header view labels each column with the pair of
  its identifier and description, the description-only view with the description (the
  identifier itself where the catalog has none). The input frame is not left
  unchanged: its header is replaced in place by the dual header, of which the returned
  dual-header view is a copy.
\<close>

theorem add_metadata_columns_headers_only:
  "(case add_metadata_columns df of (df1, df_out, df_friendly) \<Rightarrow>
      rows df_out = rows df \<and> rows df_friendly = rows df \<and> rows df1 = rows df
      \<and> columns df_out = map (\<lambda>sid. Tup sid (SERIES_get sid)) (columns df)
      \<and> columns df_friendly = map SERIES_get (columns df)
      \<and> col_names df_friendly = col_names df
      \<and> df1 = df\<lparr>columns := map (\<lambda>sid. Tup sid (SERIES_get sid)) (columns df),
                  col_names := [''FRED_ID'', ''Description'']\<rparr>
      \<and> df_out = df1)"
  using rename_friendly [of df]
  by (simp add: add_metadata_columns_def Let_def rename_def)

section \<open>The secondary output path\<close>

lemma replace_from_absent:
  "old \<noteq> [] \<Longrightarrow> \<not> sublist old s \<Longrightarrow> replace_from old new s = s"
  by (induction s) (auto simp: sublist_Cons_right)

text \<open>An occurrence of \<open>.csv\<close> that starts inside the stem cannot run into the final
  \<open>.csv\<close>: none of \<open>c\<close>, \<open>s\<close>, \<open>v\<close> is a dot.\<close>

lemma csv_no_overlap:
  assumes "\<not> sublist ''.csv'' (c # cs)"
  shows "\<not> prefix ''.csv'' (c # cs @ ''.csv'')"
proof
  assume p: "prefix ''.csv'' (c # cs @ ''.csv'')"
  show False
  proof (cases cs)
    case Nil
    with p show ?thesis by simp
  next
    case c1: (Cons a as)
    show ?thesis
    proof (cases as)
      case Nil
      with p c1 show ?thesis by simp
    next
      case c2: (Cons b bs)
      show ?thesis
      proof (cases bs)
        case Nil
        with p c1 c2 show ?thesis by simp
      next
        case (Cons d ds)
        with p c1 c2 have "prefix ''.csv'' (c # cs)" by simp
        then have "sublist ''.csv'' (c # cs)" by (rule prefix_imp_sublist)
        with assms show ?thesis by simp
      qed
    qed
  qed
qed

lemma replace_from_csv_end:
  "\<not> sublist ''.csv'' stem \<Longrightarrow> replace_from ''.csv'' new (stem @ ''.csv'') = stem @ new"
proof (induction stem)
  case Nil
  show ?case by simp
next
  case (Cons c cs)
  have np: "\<not> prefix ''.csv'' (c # cs @ ''.csv'')"
    using Cons.prems by (rule csv_no_overlap)
  have "\<not> sublist ''.csv'' cs"
    using Cons.prems by (simp add: sublist_Cons_right)
  with Cons.IH have ih: "replace_from ''.csv'' new (cs @ ''.csv'') = cs @ new"
    by simp
  have "replace_from ''.csv'' new (c # cs @ ''.csv'')
      = c # replace_from ''.csv'' new (cs @ ''.csv'')"
    by (subst replace_from.simps) (simp only: np if_False simp_thms)
  with ih show ?case by simp
qed

lemma splitext_csv: "splitext (stem @ ''.csv'') = (stem, ''.csv'')"
  by (simp add: splitext_def)

lemma friendly_path_absent: "\<not> sublist ''.csv'' p \<Longrightarrow> friendly_path p = p"
  by (simp add: friendly_path_def replace_def replace_from_absent)

text \<open>
  C2, as the spec has it: for every primary path the secondary path is the primary
  path with the suffix inserted immediately before the extension. The script replaces
  every occurrence of \<open>.csv\<close> instead, so the claim fails for a path with another
  extension (nothing is inserted) and for a path with \<open>.csv\<close> in a directory name (the
  suffix is inserted there too).
\<close>

theorem friendly_path_not_suffix_before_extension:
  "friendly_path ''out.txt'' \<noteq> suffix_before_extension ''_friendly'' ''out.txt''
   \<and> friendly_path ''a.csv.d/out.csv''
       \<noteq> suffix_before_extension ''_friendly'' ''a.csv.d/out.csv''"
  by (simp add: friendly_path_def replace_def suffix_before_extension_def splitext_def)

text \<open>
  C2, amended: for every primary path that ends in \<open>.csv\<close> and has no other occurrence
  of \<open>.csv\<close>, the secondary path is the primary path with \<open>_friendly\<close> inserted
  immediately before that extension, the rest unchanged.
\<close>

theorem friendly_path_csv_extension:
  assumes "\<not> sublist ''.csv'' stem"
  shows "friendly_path (stem @ ''.csv'') = stem @ ''_friendly'' @ ''.csv''
    \<and> friendly_path (stem @ ''.csv'') = suffix_before_extension ''_friendly'' (stem @ ''.csv'')"
proof -
  have "friendly_path (stem @ ''.csv'') = stem @ ''_friendly.csv''"
    using assms by (simp add: friendly_path_def replace_def replace_from_csv_end)
  moreover have "suffix_before_extension ''_friendly'' (stem @ ''.csv'') = stem @ ''_friendly.csv''"
    by (simp add: suffix_before_extension_def splitext_csv)
  ultimately show ?thesis by simp
qed

theorem friendly_path_csv_extension_witness:
  "\<not> sublist ''.csv'' ''fred_series_all''
   \<and> friendly_path ''fred_series_all.csv'' = ''fred_series_all_friendly.csv''"
  using friendly_path_csv_extension [of "''fred_series_all''"]
  by (simp add: sublist_Cons_right)

section \<open>The credential check\<close>

lemma main_falsy_key:
  "\<not> truthy (api_key (parse_args w av))
    \<Longrightarrow> main w av = \<lparr>status = 1, events = [Stderr missing_key_message]\<rparr>"
  by (simp add: main_def Let_def)

text \<open>
  C3: with no \<open>--api-key\<close> option and no \<open>FRED_API_KEY\<close> in the environment, the run ends
  with a non-zero status; it has attempted no write and made no provider request: its
  only event is the message on the error stream.
\<close>

theorem missing_credential_aborts:
  assumes "opt_api_key av = None" and "getenv w ''FRED_API_KEY'' = None"
  shows "status (main w av) \<noteq> 0
    \<and> filter is_write (events (main w av)) = []
    \<and> filter is_fetch (events (main w av)) = []
    \<and> events (main w av) = [Stderr missing_key_message]"
proof -
  have "\<not> truthy (api_key (parse_args w av))"
    using assms by (simp add: parse_args_def)
  then have "main w av = \<lparr>status = 1, events = [Stderr missing_key_message]\<rparr>"
    by (rule main_falsy_key)
  then show ?thesis by simp
qed

theorem missing_credential_aborts_witness:
  "opt_api_key no_options = None \<and> getenv bare_world ''FRED_API_KEY'' = None
   \<and> status (main bare_world no_options) \<noteq> 0
   \<and> filter is_write (events (main bare_world no_options)) = []
   \<and> filter is_fetch (events (main bare_world no_options)) = []"
  using missing_credential_aborts [of no_options bare_world]
  by (simp add: no_options_def bare_world_def)

text \<open>
  C9: an empty credential, from \<open>--api-key ""\<close> or from an empty \<open>FRED_API_KEY\<close> with no
  option, gives the very run a missing credential gives: status 1, the
  missing-credential message, no write.
\<close>

theorem empty_credential_like_missing:
  assumes "opt_api_key av = Some [] \<or> (opt_api_key av = None \<and> getenv w ''FRED_API_KEY'' = Some [])"
  shows "main w av = main (w\<lparr>getenv := (\<lambda>v. None)\<rparr>) (av\<lparr>opt_api_key := None\<rparr>)
    \<and> main w av = \<lparr>status = 1, events = [Stderr missing_key_message]\<rparr>
    \<and> filter is_write (events (main w av)) = []"
proof -
  have "\<not> truthy (api_key (parse_args w av))"
    using assms by (auto simp: parse_args_def)
  then have a: "main w av = \<lparr>status = 1, events = [Stderr missing_key_message]\<rparr>"
    by (rule main_falsy_key)
  have "\<not> truthy (api_key (parse_args (w\<lparr>getenv := (\<lambda>v. None)\<rparr>) (av\<lparr>opt_api_key := None\<rparr>)))"
    by (simp add: parse_args_def)
  then have "main (w\<lparr>getenv := (\<lambda>v. None)\<rparr>) (av\<lparr>opt_api_key := None\<rparr>)
      = \<lparr>status = 1, events = [Stderr missing_key_message]\<rparr>"
    by (rule main_falsy_key)
  with a show ?thesis by simp
qed

theorem empty_credential_like_missing_witness:
  "opt_api_key (no_options\<lparr>opt_api_key := Some []\<rparr>) = Some []
   \<and> main bare_world (no_options\<lparr>opt_api_key := Some []\<rparr>)
       = \<lparr>status = 1, events = [Stderr missing_key_message]\<rparr>
   \<and> opt_api_key no_options = None
   \<and> getenv (bare_world\<lparr>getenv := (\<lambda>v. Some [])\<rparr>) ''FRED_API_KEY'' = Some []
   \<and> main (bare_world\<lparr>getenv := (\<lambda>v. Some [])\<rparr>) no_options
       = \<lparr>status = 1, events = [Stderr missing_key_message]\<rparr>"
proof -
  have k: "opt_api_key (no_options\<lparr>opt_api_key := Some []\<rparr>) = Some []"
    by simp
  then have h: "opt_api_key (no_options\<lparr>opt_api_key := Some []\<rparr>) = Some []
      \<or> (opt_api_key (no_options\<lparr>opt_api_key := Some []\<rparr>) = None
          \<and> getenv bare_world ''FRED_API_KEY'' = Some [])"
    by (rule disjI1)
  have n: "opt_api_key no_options = None"
    by (simp add: no_options_def)
  have e: "getenv (bare_world\<lparr>getenv := (\<lambda>v. Some [])\<rparr>) ''FRED_API_KEY'' = Some []"
    by simp
  from n e have h': "opt_api_key no_options = Some []
      \<or> (opt_api_key no_options = None
          \<and> getenv (bare_world\<lparr>getenv := (\<lambda>v. Some [])\<rparr>) ''FRED_API_KEY'' = Some [])"
    by blast
  from empty_credential_like_missing [OF h] empty_credential_like_missing [OF h'] k n e
  show ?thesis
    by blast
qed

section \<open>The writes\<close>

lemma files_of_append: "files_of (xs @ ys) fs = files_of ys (files_of xs fs)"
  by (induction xs fs rule: files_of.induct) (simp_all add: fun_upd_def)

lemma fetch_all_returns:
  assumes "ids \<noteq> []"
    and "\<forall>sid \<in> set ids. get_series w fred sid = Inr (f sid) \<and> distinct (map fst (f sid))"
  shows "\<exists>tr df. fetch_all w args fred ids = (tr, Inr df)"
  using fetch_all_ok [OF assms, of args] by (cases "fetch_all w args fred ids") auto

lemma main_writes:
  assumes "parse_args w av = args" and "truthy (api_key args)"
    and "fetch_all w args (the (api_key args)) SERIES_keys = (tr, Inr df)"
    and "add_metadata_columns df = (df1, df_multi, df_friendly)"
    and "to_csv w (out args) df_multi = None"
    and "to_csv w (friendly_path (out args)) df_friendly = None"
  shows "main w av =
    \<lparr>status = 0,
     events = tr @
       [Wrote (out args) (Csv df_multi ''Date''),
        Stdout (''Wrote CSV: '' @ out args
          @ ''  (columns are a MultiIndex: FRED_ID, Description)'')]
       @ parquet_step w args df_multi
       @ [Wrote (friendly_path (out args)) (Csv df_friendly ''Date''),
          Stdout (''Wrote CSV with friendly column names: '' @ friendly_path (out args))]\<rparr>"
  using assms by (simp add: main_def Let_def)

text \<open>
  C4: in a run that reaches the writes, when the primary write succeeds, a Parquet path
  is given, the Parquet write raises and the secondary write succeeds, the exception is
  caught and reported on the error stream, the run goes on to write the secondary file,
  and the status is zero.
\<close>

theorem parquet_failure_recovered:
  assumes "parse_args w av = args" and "truthy (api_key args)"
    and "fetch_all w args (the (api_key args)) SERIES_keys = (tr, Inr df)"
    and "add_metadata_columns df = (df1, df_multi, df_friendly)"
    and "to_csv w (out args) df_multi = None"
    and "parquet args = Some p" and "p \<noteq> []"
    and "to_parquet w p df_multi = Some e"
    and "to_csv w (friendly_path (out args)) df_friendly = None"
  shows "status (main w av) = 0
    \<and> events (main w av) = tr @
       [Wrote (out args) (Csv df_multi ''Date''),
        Stdout (''Wrote CSV: '' @ out args
          @ ''  (columns are a MultiIndex: FRED_ID, Description)''),
        WriteFailed p,
        Stderr (''Parquet write failed (install pyarrow?): '' @ str e @ [CHR 0x0A]),
        Wrote (friendly_path (out args)) (Csv df_friendly ''Date''),
        Stdout (''Wrote CSV with friendly column names: '' @ friendly_path (out args))]"
proof -
  have "parquet_step w args df_multi =
      [WriteFailed p, Stderr (''Parquet write failed (install pyarrow?): '' @ str e @ [CHR 0x0A])]"
    using assms(6,7,8) by (simp add: parquet_step_def)
  with main_writes [OF assms(1,2,3,4,5,9)] show ?thesis
    by simp
qed

lemma bare_fetches:
  "\<forall>sid \<in> set SERIES_keys.
      get_series (bare_world\<lparr>to_parquet := q\<rparr>) k sid = Inr ((\<lambda>sid. []) sid)
      \<and> distinct (map fst ((\<lambda>sid. []) sid :: (date \<times> val) list))"
  by (simp add: bare_world_def)

lemma SERIES_keys_not_Nil: "SERIES_keys \<noteq> []"
  by (simp add: SERIES_keys_def SERIES_def)

theorem parquet_failure_recovered_witness:
  "truthy (api_key (parse_args no_pyarrow_world with_parquet))
   \<and> parquet (parse_args no_pyarrow_world with_parquet) = Some ''fred.parquet''
   \<and> to_parquet no_pyarrow_world ''fred.parquet''
       = (\<lambda>df. Some (Exception ''No module named pyarrow''))
   \<and> status (main no_pyarrow_world with_parquet) = 0
   \<and> Stderr (''Parquet write failed (install pyarrow?): No module named pyarrow'' @ [CHR 0x0A])
       \<in> set (events (main no_pyarrow_world with_parquet))
   \<and> (\<exists>c. Wrote ''fred_series_all_friendly.csv'' c
         \<in> set (events (main no_pyarrow_world with_parquet)))"
proof -
  define args where "args = parse_args no_pyarrow_world with_parquet"
  have a: "parse_args no_pyarrow_world with_parquet = args"
    by (simp add: args_def)
  have b: "truthy (api_key args)"
    by (simp add: args_def parse_args_def with_parquet_def with_key_def no_options_def)
  have p: "parquet args = Some ''fred.parquet''"
    by (simp add: args_def parse_args_def with_parquet_def with_key_def no_options_def)
  have ne: "''fred.parquet'' \<noteq> []" by simp
  obtain tr df
    where f: "fetch_all no_pyarrow_world args (the (api_key args)) SERIES_keys = (tr, Inr df)"
    using fetch_all_returns [OF SERIES_keys_not_Nil bare_fetches]
    unfolding no_pyarrow_world_def by blast
  obtain df1 df_multi df_friendly
    where m: "add_metadata_columns df = (df1, df_multi, df_friendly)"
    by (cases "add_metadata_columns df") auto
  have c1: "to_csv no_pyarrow_world (out args) df_multi = None"
    by (simp add: no_pyarrow_world_def bare_world_def)
  have c2: "to_csv no_pyarrow_world (friendly_path (out args)) df_friendly = None"
    by (simp add: no_pyarrow_world_def bare_world_def)
  have q: "to_parquet no_pyarrow_world ''fred.parquet'' df_multi
      = Some (Exception ''No module named pyarrow'')"
    by (simp add: no_pyarrow_world_def)
  have q': "to_parquet no_pyarrow_world ''fred.parquet''
      = (\<lambda>df. Some (Exception ''No module named pyarrow''))"
    by (simp add: no_pyarrow_world_def)
  have o: "friendly_path (out args) = ''fred_series_all_friendly.csv''"
    by (simp add: args_def parse_args_def with_parquet_def with_key_def no_options_def
        friendly_path_def replace_def)
  from parquet_failure_recovered [OF a b f m c1 p ne q c2] b p q'
  show ?thesis
    unfolding a o by auto
qed

text \<open>
  C10: when the primary path has no occurrence of \<open>.csv\<close>, the secondary path is the
  primary path; in a run whose writes to that path succeed, the dual-header write to
  it comes first and the description-only write to it last, so the file is left with
  the description-only table.
\<close>

theorem secondary_overwrites_primary:
  assumes "\<not> sublist ''.csv'' (out args)"
  shows "friendly_path (out args) = out args
    \<and> (parse_args w av = args \<and> truthy (api_key args)
        \<and> fetch_all w args (the (api_key args)) SERIES_keys = (tr, Inr df)
        \<and> add_metadata_columns df = (df1, df_multi, df_friendly)
        \<and> to_csv w (out args) df_multi = None
        \<and> to_csv w (out args) df_friendly = None
       \<longrightarrow> events (main w av) = tr @
            [Wrote (out args) (Csv df_multi ''Date''),
             Stdout (''Wrote CSV: '' @ out args
               @ ''  (columns are a MultiIndex: FRED_ID, Description)'')]
            @ parquet_step w args df_multi
            @ [Wrote (out args) (Csv df_friendly ''Date''),
               Stdout (''Wrote CSV with friendly column names: '' @ out args)]
          \<and> files_of (events (main w av)) fs (out args) = Some (Csv df_friendly ''Date''))"
proof (intro conjI impI)
  show same: "friendly_path (out args) = out args"
    using assms by (rule friendly_path_absent)
  assume h: "parse_args w av = args \<and> truthy (api_key args)
        \<and> fetch_all w args (the (api_key args)) SERIES_keys = (tr, Inr df)
        \<and> add_metadata_columns df = (df1, df_multi, df_friendly)
        \<and> to_csv w (out args) df_multi = None
        \<and> to_csv w (out args) df_friendly = None"
  then have "to_csv w (friendly_path (out args)) df_friendly = None"
    by (simp add: same)
  with h have "main w av =
    \<lparr>status = 0,
     events = tr @
       [Wrote (out args) (Csv df_multi ''Date''),
        Stdout (''Wrote CSV: '' @ out args
          @ ''  (columns are a MultiIndex: FRED_ID, Description)'')]
       @ parquet_step w args df_multi
       @ [Wrote (friendly_path (out args)) (Csv df_friendly ''Date''),
          Stdout (''Wrote CSV with friendly column names: '' @ friendly_path (out args))]\<rparr>"
    using main_writes [of w av args tr df df1 df_multi df_friendly] by simp
  then show ev: "events (main w av) = tr @
            [Wrote (out args) (Csv df_multi ''Date''),
             Stdout (''Wrote CSV: '' @ out args
               @ ''  (columns are a MultiIndex: FRED_ID, Description)'')]
            @ parquet_step w args df_multi
            @ [Wrote (out args) (Csv df_friendly ''Date''),
               Stdout (''Wrote CSV with friendly column names: '' @ out args)]"
    by (simp add: same)
  show "files_of (events (main w av)) fs (out args) = Some (Csv df_friendly ''Date'')"
    unfolding ev by (simp add: files_of_append)
qed


lemma add_metadata_columns_friendly:
  "add_metadata_columns df = (df1, df_multi, df_friendly)
    \<Longrightarrow> columns df_friendly = map SERIES_get (columns df)"
  using rename_friendly [of df] by (auto simp: add_metadata_columns_def Let_def)

lemma fetch_all_columns:
  assumes "ids \<noteq> []"
    and "\<forall>sid \<in> set ids. get_series w fred sid = Inr (f sid) \<and> distinct (map fst (f sid))"
    and "fetch_all w args fred ids = (tr, Inr df)"
  shows "columns df = map Str ids"
  using fetch_all_ok [OF assms(1,2), of args] assms(3) by auto

theorem secondary_overwrites_primary_witness:
  "\<not> sublist ''.csv'' (out (parse_args bare_world to_txt))
   \<and> friendly_path ''out.txt'' = ''out.txt''
   \<and> (\<exists>df. files_of (events (main bare_world to_txt)) Map.empty ''out.txt''
           = Some (Csv df ''Date'')
         \<and> columns df = map SERIES_get (map Str SERIES_keys))"
proof -
  define args where "args = parse_args bare_world to_txt"
  have o: "out args = ''out.txt''"
    by (simp add: args_def parse_args_def to_txt_def with_key_def no_options_def)
  have n: "\<not> sublist ''.csv'' (out args)"
    unfolding o by (simp add: sublist_Cons_right)
  have a: "parse_args bare_world to_txt = args"
    by (simp add: args_def)
  have b: "truthy (api_key args)"
    by (simp add: args_def parse_args_def to_txt_def with_key_def no_options_def)
  have g: "\<forall>sid \<in> set SERIES_keys.
      get_series bare_world (the (api_key args)) sid = Inr ((\<lambda>sid. []) sid)
      \<and> distinct (map fst ((\<lambda>sid. []) sid :: (date \<times> val) list))"
    by (simp add: bare_world_def)
  obtain tr df
    where f: "fetch_all bare_world args (the (api_key args)) SERIES_keys = (tr, Inr df)"
    using fetch_all_returns [OF SERIES_keys_not_Nil g] by blast
  have cols: "columns df = map Str SERIES_keys"
    using SERIES_keys_not_Nil g f by (rule fetch_all_columns)
  obtain df1 df_multi df_friendly
    where m: "add_metadata_columns df = (df1, df_multi, df_friendly)"
    by (cases "add_metadata_columns df") auto
  have fr: "columns df_friendly = map SERIES_get (map Str SERIES_keys)"
    using add_metadata_columns_friendly [OF m] cols by simp
  have c1: "to_csv bare_world (out args) df_multi = None"
    by (simp add: bare_world_def)
  have c2: "to_csv bare_world (out args) df_friendly = None"
    by (simp add: bare_world_def)
  note t = secondary_overwrites_primary
    [OF n, of bare_world to_txt tr df df1 df_multi df_friendly Map.empty]
  from t have p: "friendly_path (out args) = out args"
    by (rule conjunct1)
  from t a b f m c1 c2
  have "files_of (events (main bare_world to_txt)) Map.empty (out args)
      = Some (Csv df_friendly ''Date'')"
    by blast
  with n p fr show ?thesis
    unfolding a o by blast
qed

end
